theory Spec2Isabelle
  imports Complex_Main "HOL-Library.Multiset"
begin

section \<open>Python values and built-ins used by \<open>scantron/types.py\<close>\<close>

text \<open>
  Strings are Python \<open>str\<close> values whose characters have code points below 256; a
  \<^typ>\<open>char\<close> is such a code point. Exceptions are values of the type \<open>error\<close>, one
  constructor per exception class (the message is not kept), and a function that may
  raise returns \<open>error + 'a\<close> with \<open>Inl\<close> for the exception.
\<close>

datatype error = ValueError | IndexError | ZeroDivisionError | AssertionError | OverflowError

definition raise_or :: "error + 'a \<Rightarrow> ('a \<Rightarrow> error + 'b) \<Rightarrow> error + 'b" where
  "raise_or r k = (case r of Inl e \<Rightarrow> Inl e | Inr x \<Rightarrow> k x)"

text \<open>A list comprehension \<open>[f(x) for x in xs]\<close>: the first call that raises ends it.\<close>

fun comprehension :: "('a \<Rightarrow> error + 'b) \<Rightarrow> 'a list \<Rightarrow> error + 'b list" where
  "comprehension f [] = Inr []"
| "comprehension f (x # xs) =
     (case f x of
        Inl e \<Rightarrow> Inl e
      | Inr y \<Rightarrow> (case comprehension f xs of Inl e \<Rightarrow> Inl e | Inr ys \<Rightarrow> Inr (y # ys)))"

text \<open>The regular-expression class \<open>\d\<close>; below code point 256 it is the ASCII digits.\<close>

definition re_digit :: "char \<Rightarrow> bool" where
  "re_digit c = (c \<in> set ''0123456789'')"

text \<open>
  \<open>str.isdigit\<close> on one character: below code point 256 the ASCII digits and the
  superscripts U+00B2, U+00B3 and U+00B9.
\<close>

definition isdigit_char :: "char \<Rightarrow> bool" where
  "isdigit_char c = (re_digit c \<or> c = CHR 0xB2 \<or> c = CHR 0xB3 \<or> c = CHR 0xB9)"

definition py_isdigit :: "string \<Rightarrow> bool" where
  "py_isdigit s = (s \<noteq> [] \<and> list_all isdigit_char s)"

text \<open>\<open>str.isspace\<close> on one character, as \<open>str.split()\<close> and \<open>str.strip()\<close> use it.\<close>

definition isspace_char :: "char \<Rightarrow> bool" where
  "isspace_char c =
     (c \<in> set [CHR 0x09, CHR 0x0A, CHR 0x0B, CHR 0x0C, CHR 0x0D, CHR 0x1C, CHR 0x1D,
                CHR 0x1E, CHR 0x1F, CHR 0x20, CHR 0x85, CHR 0xA0])"

definition py_strip :: "string \<Rightarrow> string" where
  "py_strip s = rev (dropWhile isspace_char (rev (dropWhile isspace_char s)))"

text \<open>\<open>str.split()\<close>: the maximal runs of characters that are not whitespace.\<close>

fun split_ws :: "string \<Rightarrow> string \<Rightarrow> string list" where
  "split_ws cur [] = (if cur = [] then [] else [cur])"
| "split_ws cur (c # cs) =
     (if isspace_char c then (if cur = [] then split_ws [] cs else cur # split_ws [] cs)
      else split_ws (cur @ [c]) cs)"

definition py_split :: "string \<Rightarrow> string list" where
  "py_split s = split_ws [] s"

text \<open>\<open>str.split(sep)\<close> for a separator of one character: empty pieces are kept.\<close>

fun split_sep :: "char \<Rightarrow> string \<Rightarrow> string \<Rightarrow> string list" where
  "split_sep sep cur [] = [cur]"
| "split_sep sep cur (c # cs) =
     (if c = sep then cur # split_sep sep [] cs else split_sep sep (cur @ [c]) cs)"

definition py_split_on :: "char \<Rightarrow> string \<Rightarrow> string list" where
  "py_split_on sep s = split_sep sep [] s"

fun py_join :: "string \<Rightarrow> string list \<Rightarrow> string" where
  "py_join sep [] = []"
| "py_join sep [w] = w"
| "py_join sep (w # ws) = w @ sep @ py_join sep ws"

text \<open>
  \<open>int(s)\<close> in base 10: whitespace around, an optional sign, then digits with single
  underscores allowed between them. Of the \<open>str.isspace\<close> characters below 256,
  \<open>int\<close> does not skip U+001C to U+001F. More digits than the interpreter's default
  limit of 4300 is a \<open>ValueError\<close> as well.
\<close>

definition int_space :: "char \<Rightarrow> bool" where
  "int_space c =
     (c \<in> set [CHR 0x09, CHR 0x0A, CHR 0x0B, CHR 0x0C, CHR 0x0D, CHR 0x20, CHR 0x85, CHR 0xA0])"

definition digit_val :: "char \<Rightarrow> int" where
  "digit_val c = int (of_char c) - 48"

definition decimal :: "string \<Rightarrow> int" where
  "decimal ds = foldl (\<lambda>acc c. 10 * acc + digit_val c) 0 ds"

fun digits_ok :: "string \<Rightarrow> bool" where
  "digits_ok [] = False"
| "digits_ok [c] = re_digit c"
| "digits_ok (c # d # cs) =
     (re_digit c \<and> (if d = CHR ''_'' then digits_ok cs else digits_ok (d # cs)))"

definition int_max_str_digits :: nat where
  "int_max_str_digits = 4300"

definition py_int :: "string \<Rightarrow> error + int" where
  "py_int s =
     (let t = rev (dropWhile int_space (rev (dropWhile int_space s)));
          neg = (t \<noteq> [] \<and> hd t = CHR ''-'');
          body = (if t \<noteq> [] \<and> (hd t = CHR ''-'' \<or> hd t = CHR ''+'') then tl t else t);
          ds = filter re_digit body
      in if digits_ok body \<and> length ds \<le> int_max_str_digits
         then Inr (if neg then - decimal ds else decimal ds)
         else Inl ValueError)"

text \<open>
  Indexing \<open>xs[i]\<close> and slicing \<open>xs[lo:hi]\<close> of a list: an index out of range raises,
  a slice never does; a negative bound counts from the end and every bound is clipped
  to the list.
\<close>

definition py_index :: "'a list \<Rightarrow> int \<Rightarrow> error + 'a" where
  "py_index xs i =
     (let j = (if i < 0 then i + int (length xs) else i)
      in if j < 0 \<or> int (length xs) \<le> j then Inl IndexError else Inr (xs ! nat j))"

definition slice_bound :: "nat \<Rightarrow> int \<Rightarrow> nat" where
  "slice_bound n i = (if i < 0 then nat (max 0 (i + int n)) else min (nat i) n)"

definition py_slice :: "'a list \<Rightarrow> int \<Rightarrow> int \<Rightarrow> 'a list" where
  "py_slice xs lo hi =
     (let l = slice_bound (length xs) lo; h = slice_bound (length xs) hi
      in take (h - l) (drop l xs))"

section \<open>Bubble\<close>

datatype Bubble = A | B | C | D | E

definition Bubble_value :: "Bubble \<Rightarrow> char" where
  "Bubble_value b =
     (case b of A \<Rightarrow> CHR ''A'' | B \<Rightarrow> CHR ''B'' | C \<Rightarrow> CHR ''C'' | D \<Rightarrow> CHR ''D''
      | E \<Rightarrow> CHR ''E'')"

text \<open>The enum call \<open>Bubble(value)\<close>: the member with that value, else \<open>ValueError\<close>.\<close>

definition Bubble_call :: "string \<Rightarrow> error + Bubble" where
  "Bubble_call v =
     (if v = ''A'' then Inr A else if v = ''B'' then Inr B else if v = ''C'' then Inr C
      else if v = ''D'' then Inr D else if v = ''E'' then Inr E else Inl ValueError)"

text \<open>
  \<open>Bubble(chr(i))\<close>: \<open>chr\<close> raises \<open>OverflowError\<close> outside a C int and \<open>ValueError\<close>
  outside the code points; a code point above 255 is the value of no member.
\<close>

definition Bubble_chr :: "int \<Rightarrow> error + Bubble" where
  "Bubble_chr i =
     (if i < - 2147483648 \<or> 2147483647 < i then Inl OverflowError
      else if i < 0 \<or> 1114112 \<le> i then Inl ValueError
      else if i < 256 then Bubble_call [char_of (nat i)]
      else Inl ValueError)"

text \<open>
  \<open>Bubble.parse\<close>: the \<open>except\<close> clause replaces a \<open>ValueError\<close> of the digit branch
  by a \<open>ValueError\<close> with another message, so the class of the exception is the same
  with and without it; any other exception passes through.
\<close>

definition Bubble_parse :: "string \<Rightarrow> error + Bubble" where
  "Bubble_parse v =
     (if py_isdigit v then
        (case py_int v of
           Inl e \<Rightarrow> Inl e
         | Inr n \<Rightarrow> Bubble_chr (65 + (n - 1)))
      else Bubble_call v)"

definition BUBBLES :: "Bubble list" where
  "BUBBLES = [A, B, C, D, E]"

section \<open>Response\<close>

record Response =
  bubbles :: "Bubble list"

text \<open>
  \<open>Response.__init__\<close> sorts the choices by their value, a one-character string, which
  Python compares by code point.
\<close>

definition Response_init :: "Bubble list \<Rightarrow> Response" where
  "Response_init choices = \<lparr>bubbles = sort_key (\<lambda>b. of_char (Bubble_value b) :: nat) choices\<rparr>"

definition bubble_set :: "Response \<Rightarrow> Bubble set" where
  "bubble_set r = set (bubbles r)"

text \<open>\<open>re.sub(r'[^\dA-E]', '', value)\<close> keeps the characters of the class \<open>[\dA-E]\<close>.\<close>

definition re_keep :: "char \<Rightarrow> bool" where
  "re_keep c = (re_digit c \<or> c \<in> set ''ABCDE'')"

definition re_sub_keep :: "string \<Rightarrow> string" where
  "re_sub_keep v = filter re_keep v"

text \<open>A digit that is the index of no bubble: a digit other than 1 to 5.\<close>

definition invalid_digit :: "char \<Rightarrow> bool" where
  "invalid_digit c = (re_digit c \<and> c \<notin> set ''12345'')"

text \<open>
  The bubble one character denotes, in the words of the specification: a digit 1 to 5
  is the index of a letter among A to E, a letter A to E is itself, and any other
  character denotes none.
\<close>

definition token_bubble :: "char \<Rightarrow> Bubble option" where
  "token_bubble c =
     (if c = CHR ''1'' \<or> c = CHR ''A'' then Some A
      else if c = CHR ''2'' \<or> c = CHR ''B'' then Some B
      else if c = CHR ''3'' \<or> c = CHR ''C'' then Some C
      else if c = CHR ''4'' \<or> c = CHR ''D'' then Some D
      else if c = CHR ''5'' \<or> c = CHR ''E'' then Some E
      else None)"

text \<open>
  \<open>Response.parse\<close>. \<open>list(set(xs))\<close> lists the distinct elements of \<open>xs\<close> in an order
  Python does not fix; \<open>remdups\<close> is one such order, and \<open>Response_init\<close> sorts it.
\<close>

definition Response_parse :: "string \<Rightarrow> error + Response" where
  "Response_parse v =
     (case comprehension Bubble_parse (map (\<lambda>c. [c]) (re_sub_keep v)) of
        Inl e \<Rightarrow> Inl e
      | Inr bs \<Rightarrow> Inr (Response_init (remdups bs)))"

section \<open>Student and Scantron\<close>

record Student =
  name :: string
  sid :: string

definition Student_init :: "string \<Rightarrow> string \<Rightarrow> Student" where
  "Student_init nm sd = \<lparr>name = py_join '' '' (py_split (py_strip nm)), sid = py_strip sd\<rparr>"

record Scantron =
  student :: Student
  form :: Bubble
  responses :: "Response list"

text \<open>
  \<open>Scantron.parse\<close>: \<open>int(row[3])\<close> first, then the keyword arguments in the order
  written: the student, the form, the responses of the slice \<open>row[4:4 + num_questions]\<close>.
\<close>

definition Scantron_parse :: "string list \<Rightarrow> error + Scantron" where
  "Scantron_parse row =
     raise_or (py_index row 3) (\<lambda>count.
     raise_or (py_int count) (\<lambda>num_questions.
     raise_or (py_index row 1) (\<lambda>nm.
     raise_or (py_index row 2) (\<lambda>sd.
     raise_or (py_index row 0) (\<lambda>letter.
     raise_or (Bubble_parse letter) (\<lambda>fm.
     raise_or (comprehension Response_parse (py_slice row 4 (4 + num_questions))) (\<lambda>rs.
     Inr \<lparr>student = Student_init nm sd, form = fm, responses = rs\<rparr>)))))))"

section \<open>RubricItem\<close>

record RubricItem =
  correct_response :: Response
  partial_credit :: bool

definition RubricItem_parse :: "string \<Rightarrow> error + RubricItem" where
  "RubricItem_parse v =
     (let is_partial = (v \<noteq> [] \<and> hd v = CHR ''P'');
          response_str = (if is_partial then drop 1 v else v)
      in raise_or (Response_parse response_str) (\<lambda>r.
         Inr \<lparr>correct_response = r, partial_credit = is_partial\<rparr>))"

text \<open>
  Scores and points are Python floats. They are modelled as real numbers: the rounding
  of floating-point arithmetic, infinities and NaN are outside the model. The division
  \<open>float(...) / len(correct_bubbles)\<close> raises \<open>ZeroDivisionError\<close> on a zero divisor.
\<close>

definition RubricItem_grade :: "RubricItem \<Rightarrow> Response \<Rightarrow> error + real" where
  "RubricItem_grade self response =
     (let correct_bubbles = bubble_set (correct_response self);
          response_bubbles = bubble_set response
      in if partial_credit self then
           (let num_correct = card (correct_bubbles \<inter> response_bubbles);
                num_wrong = card (response_bubbles - correct_bubbles)
            in if card correct_bubbles = 0 then Inl ZeroDivisionError
               else (let score = real_of_int (int num_correct - int num_wrong)
                                   / real (card correct_bubbles)
                     in Inr (max 0 score)))
         else Inr (if correct_bubbles = response_bubbles then 1 else 0))"

section \<open>Rubric\<close>

record Rubric =
  items :: "RubricItem list"
  points :: real
  extra_credit :: bool

text \<open>
  \<open>Rubric.parse\<close>. The built-in \<open>float\<close> is a parameter: \<open>float_of s\<close> is the number
  \<open>float(s)\<close> denotes, or the exception it raises. \<open>parts[-1]\<close> raises \<open>IndexError\<close>
  when the text has no token.
\<close>

definition Rubric_parse :: "(string \<Rightarrow> error + real) \<Rightarrow> string \<Rightarrow> error + Rubric" where
  "Rubric_parse float_of v =
     (let parts = py_split v
      in raise_or (py_index parts (- 1)) (\<lambda>last_part.
         let extra = (last_part = ''E'');
             is_points_first = (length parts = 3 \<or> length parts = 2 \<and> \<not> extra)
         in raise_or (if is_points_first then raise_or (py_index parts 0) float_of else Inr 1)
              (\<lambda>pts.
            raise_or (py_index parts (if is_points_first then 1 else 0)) (\<lambda>sequence.
            raise_or (comprehension RubricItem_parse (py_split_on CHR ''|'' sequence)) (\<lambda>its.
            Inr \<lparr>items = its, points = pts, extra_credit = extra\<rparr>)))))"

text \<open>\<open>max(xs)\<close> of a list: \<open>ValueError\<close> on the empty list, else the first greatest element.\<close>

definition py_max :: "real list \<Rightarrow> error + real" where
  "py_max xs = (case xs of [] \<Rightarrow> Inl ValueError | x # ys \<Rightarrow> Inr (fold (\<lambda>y m. if m < y then y else m) ys x))"

definition Rubric_grade :: "Rubric \<Rightarrow> Response \<Rightarrow> error + real \<times> real" where
  "Rubric_grade self response =
     raise_or (comprehension (\<lambda>item. RubricItem_grade item response) (items self)) (\<lambda>scores.
     raise_or (py_max scores) (\<lambda>best.
     let points_earned = points self * best;
         out_of = (if \<not> extra_credit self then points self else 0)
     in Inr (points_earned, out_of)))"

section \<open>Key\<close>

record Key =
  key_form :: Bubble
  questions :: "Rubric list"

definition Key_parse :: "(string \<Rightarrow> error + real) \<Rightarrow> string list \<Rightarrow> error + Key" where
  "Key_parse float_of row =
     raise_or (py_index row 3) (\<lambda>count.
     raise_or (py_int count) (\<lambda>num_questions.
     raise_or (py_index row 0) (\<lambda>letter.
     raise_or (Bubble_parse letter) (\<lambda>fm.
     raise_or (comprehension (Rubric_parse float_of) (py_slice row 4 (4 + num_questions)))
       (\<lambda>qs.
     Inr \<lparr>key_form = fm, questions = qs\<rparr>)))))"

text \<open>
  \<open>zip(*scorings)\<close> on a list of pairs: the tuple of first components and the tuple of
  second components, and nothing at all when the list is empty. \<open>sum\<close> adds from 0.
\<close>

definition zip_star :: "('a \<times> 'a) list \<Rightarrow> 'a list list" where
  "zip_star ps = (if ps = [] then [] else [map fst ps, map snd ps])"

definition py_sum :: "real list \<Rightarrow> real" where
  "py_sum xs = foldl (+) 0 xs"

text \<open>
  \<open>Key.grade\<close> returns \<open>tuple(map(sum, zip(*scorings)))\<close>, a tuple whose length depends
  on \<open>scorings\<close>: it is modelled as a list. Assertions are modelled as the interpreter
  runs them by default (not under \<open>-O\<close>).
\<close>

definition Key_grade :: "Key \<Rightarrow> Scantron \<Rightarrow> error + real list" where
  "Key_grade self scantron =
     (if form scantron \<noteq> key_form self then Inl AssertionError
      else if length (responses scantron) \<noteq> length (questions self) then Inl AssertionError
      else raise_or
             (comprehension (\<lambda>(rubric, response). Rubric_grade rubric response)
                (zip (questions self) (responses scantron)))
             (\<lambda>scorings. Inr (map py_sum (zip_star scorings))))"

section \<open>Grader\<close>

record ScantronGrade =
  grade_student :: Student
  grade_form :: Bubble
  grade_points :: real
  out_of :: real

text \<open>
  The class body of \<open>Grader\<close> binds \<open>_keys\<close> to one list object, made once when the
  class is defined. \<open>__init__\<close> never assigns \<open>self._keys\<close>, so in every instance
  \<open>self._keys\<close> and the property \<open>self.keys\<close> find the attribute of the class: an
  instance has no attribute of its own. The state of the program is the content of
  that list; \<open>initial\<close> is its content when the module is loaded.
\<close>

record state =
  class_keys :: "Key list"

definition initial :: state where
  "initial = \<lparr>class_keys = []\<rparr>"

definition keys :: "state \<Rightarrow> Key list" where
  "keys st = class_keys st"

definition add_key :: "Key \<Rightarrow> state \<Rightarrow> error + state" where
  "add_key key st =
     (if key_form key \<in> set (map key_form (keys st)) then Inl AssertionError
      else Inr (st\<lparr>class_keys := class_keys st @ [key]\<rparr>))"

text \<open>
  \<open>Grader.__init__\<close>: the exception raised, if any, and the state it leaves. The keys
  appended before a failed assertion stay in the list.
\<close>

fun Grader_init :: "Key list \<Rightarrow> state \<Rightarrow> error option \<times> state" where
  "Grader_init [] st = (None, st)"
| "Grader_init (key # ks) st =
     (case add_key key st of
        Inl e \<Rightarrow> (Some e, st)
      | Inr st' \<Rightarrow> Grader_init ks st')"

fun find_key_in :: "Key list \<Rightarrow> Bubble \<Rightarrow> error + Key" where
  "find_key_in [] fm = Inl AssertionError"
| "find_key_in (key # ks) fm = (if key_form key = fm then Inr key else find_key_in ks fm)"

definition Grader_find_key :: "state \<Rightarrow> Bubble \<Rightarrow> error + Key" where
  "Grader_find_key st fm = find_key_in (keys st) fm"

text \<open>
  \<open>Grader.grade\<close>: the unpacking \<open>points, out_of = ...\<close> raises \<open>ValueError\<close> unless
  the tuple has two components.
\<close>

definition Grader_grade :: "state \<Rightarrow> Scantron \<Rightarrow> error + ScantronGrade" where
  "Grader_grade st scantron =
     raise_or (Grader_find_key st (form scantron)) (\<lambda>key.
     raise_or (Key_grade key scantron) (\<lambda>totals.
     (case totals of
        [p, outof] \<Rightarrow>
          Inr \<lparr>grade_student = student scantron, grade_form = form scantron,
               grade_points = p, out_of = outof\<rparr>
      | _ \<Rightarrow> Inl ValueError)))"

definition Grader_grade_all :: "state \<Rightarrow> Scantron list \<Rightarrow> error + ScantronGrade list" where
  "Grader_grade_all st scantrons = comprehension (Grader_grade st) scantrons"

text \<open>The states the program can be in: any number of constructions after the load.\<close>

inductive reachable :: "state \<Rightarrow> bool" where
  loaded: "reachable initial"
| constructed: "reachable st \<Longrightarrow> reachable (snd (Grader_init ks st))"

section \<open>Facts about the built-ins\<close>

lemma comprehension_all_Inr:
  "\<forall>x\<in>set xs. \<exists>y. f x = Inr y \<Longrightarrow> comprehension f xs = Inr (map (\<lambda>x. projr (f x)) xs)"
  by (induction xs) auto

lemma comprehension_Inl_source:
  "comprehension f xs = Inl e \<Longrightarrow> \<exists>x\<in>set xs. f x = Inl e"
proof (induction xs)
  case Nil
  then show ?case by simp
next
  case (Cons x xs)
  show ?case
  proof (cases "f x")
    case (Inl e')
    with Cons.prems show ?thesis by simp
  next
    case (Inr y)
    with Cons.prems have "comprehension f xs = Inl e"
      by (cases "comprehension f xs") simp_all
    with Cons.IH show ?thesis by simp
  qed
qed

lemma comprehension_raises:
  "x \<in> set xs \<Longrightarrow> f x = Inl e \<Longrightarrow> \<exists>e'. comprehension f xs = Inl e'"
proof (induction xs)
  case Nil
  then show ?case by simp
next
  case (Cons a xs)
  show ?case
  proof (cases "f a")
    case (Inl e')
    then show ?thesis by simp
  next
    case (Inr y)
    with Cons.prems have "x \<in> set xs" by auto
    with Cons.IH Cons.prems obtain e' where "comprehension f xs = Inl e'" by blast
    with Inr show ?thesis by simp
  qed
qed

lemma py_index_nth: "i < length xs \<Longrightarrow> py_index xs (int i) = Inr (xs ! i)"
  by (simp add: py_index_def)

lemma py_index_last: "xs \<noteq> [] \<Longrightarrow> py_index xs (- 1) = Inr (last xs)"
proof -
  assume "xs \<noteq> []"
  then have "0 < length xs" by simp
  then have "nat (int (length xs) - 1) = length xs - 1" by simp
  with \<open>xs \<noteq> []\<close> show ?thesis
    by (simp add: py_index_def last_conv_nth)
qed

lemma py_index_Nil: "py_index [] i = Inl IndexError"
  by (simp add: py_index_def)

lemma py_slice_short:
  assumes "4 \<le> length row" and "int (length row) - 4 < n"
  shows "py_slice row 4 (4 + n) = drop 4 row"
proof -
  from assms have l: "slice_bound (length row) 4 = 4"
    by (simp add: slice_bound_def)
  from assms have h: "slice_bound (length row) (4 + n) = length row"
    by (simp add: slice_bound_def)
  show ?thesis unfolding py_slice_def Let_def l h by simp
qed

lemma py_int_error: "py_int s = Inl e \<Longrightarrow> e = ValueError"
  unfolding py_int_def Let_def by (simp split: if_splits)

lemma Bubble_call_error: "Bubble_call v = Inl e \<Longrightarrow> e = ValueError"
  unfolding Bubble_call_def by (simp split: if_splits)

lemma Bubble_chr_error:
  assumes "Bubble_chr i = Inl e"
  shows "e = ValueError \<or> e = OverflowError"
proof (cases "i < - 2147483648 \<or> 2147483647 < i")
  case True
  with assms show ?thesis by (simp add: Bubble_chr_def)
next
  case out: False
  show ?thesis
  proof (cases "i < 0 \<or> 1114112 \<le> i \<or> \<not> i < 256")
    case True
    with assms out show ?thesis by (auto simp: Bubble_chr_def split: if_splits)
  next
    case False
    with assms out have "Bubble_call [char_of (nat i)] = Inl e"
      by (simp add: Bubble_chr_def)
    then show ?thesis using Bubble_call_error by blast
  qed
qed

lemma Bubble_parse_error:
  assumes "Bubble_parse v = Inl e"
  shows "e = ValueError \<or> e = OverflowError"
proof (cases "py_isdigit v")
  case False
  with assms have "Bubble_call v = Inl e" by (simp add: Bubble_parse_def)
  then show ?thesis using Bubble_call_error by blast
next
  case True
  show ?thesis
  proof (cases "py_int v")
    case (Inl e')
    with assms True have "e = e'" by (simp add: Bubble_parse_def)
    with Inl show ?thesis using py_int_error by blast
  next
    case (Inr n)
    with assms True have "Bubble_chr (65 + (n - 1)) = Inl e" by (simp add: Bubble_parse_def)
    then show ?thesis by (rule Bubble_chr_error)
  qed
qed

lemma Bubble_parse_not_IndexError: "Bubble_parse v \<noteq> Inl IndexError"
  using Bubble_parse_error [of v IndexError] by auto


section \<open>Parsing a response\<close>

lemma re_keep_iff: "re_keep c = (c \<in> set ''0123456789ABCDE'')"
  by (auto simp: re_keep_def re_digit_def)

lemma invalid_digit_keep: "invalid_digit c \<Longrightarrow> re_keep c"
  by (simp add: invalid_digit_def re_keep_def)

lemma tokens_table:
  "list_all (\<lambda>c. Bubble_parse [c] =
      (if invalid_digit c then Inl ValueError else Inr (projr (Bubble_parse [c]))))
     ''0123456789ABCDE''"
  by code_simp

lemma token_parse:
  assumes "re_keep c"
  shows "Bubble_parse [c] =
      (if invalid_digit c then Inl ValueError else Inr (projr (Bubble_parse [c])))"
proof -
  from assms have "c \<in> set ''0123456789ABCDE''"
    by (simp only: re_keep_iff)
  with tokens_table show ?thesis
    unfolding list_all_iff by blast
qed

lemma token_invalid: "invalid_digit c \<Longrightarrow> Bubble_parse [c] = Inl ValueError"
  using token_parse [OF invalid_digit_keep, of c] by (simp only: if_True)

lemma token_valid:
  "re_keep c \<Longrightarrow> \<not> invalid_digit c \<Longrightarrow> Bubble_parse [c] = Inr (projr (Bubble_parse [c]))"
  using token_parse [of c] by (simp only: if_False)

lemma token_error: "re_keep c \<Longrightarrow> Bubble_parse [c] = Inl e \<Longrightarrow> e = ValueError"
  using token_invalid [of c] token_valid [of c] by (cases "invalid_digit c") simp_all

lemma set_re_sub_keep: "set (re_sub_keep v) = {c \<in> set v. re_keep c}"
  by (simp add: re_sub_keep_def)

lemma Response_parse_char:
  "Response_parse v =
     (if list_ex invalid_digit v then Inl ValueError
      else Inr (Response_init (remdups (map (\<lambda>c. projr (Bubble_parse [c])) (re_sub_keep v)))))"
proof (cases "list_ex invalid_digit v")
  case True
  then obtain c where c: "c \<in> set v" "invalid_digit c"
    unfolding list_ex_iff by blast
  let ?toks = "map (\<lambda>c. [c]) (re_sub_keep v)"
  from c have k: "c \<in> set (re_sub_keep v)"
    using invalid_digit_keep [of c] unfolding set_re_sub_keep by blast
  then have m: "[c] \<in> set ?toks" by simp
  have i: "Bubble_parse [c] = Inl ValueError"
    using c(2) by (rule token_invalid)
  from comprehension_raises [of "[c]" ?toks Bubble_parse ValueError, OF m i]
  obtain e where e: "comprehension Bubble_parse ?toks = Inl e" ..
  from comprehension_Inl_source [of Bubble_parse ?toks e, OF e]
  obtain tok where tok: "tok \<in> set ?toks" "Bubble_parse tok = Inl e" ..
  from tok(1) obtain d where d: "d \<in> set (re_sub_keep v)" "tok = [d]" by auto
  from d(1) have "re_keep d" unfolding set_re_sub_keep by simp
  moreover from tok(2) d(2) have "Bubble_parse [d] = Inl e" by simp
  ultimately have "e = ValueError" by (rule token_error)
  with e True show ?thesis by (simp add: Response_parse_def)
next
  case False
  let ?toks = "map (\<lambda>c. [c]) (re_sub_keep v)"
  have "\<forall>tok\<in>set ?toks. \<exists>b. Bubble_parse tok = Inr b"
  proof
    fix tok assume "tok \<in> set ?toks"
    then obtain d where d: "tok = [d]" "d \<in> set (re_sub_keep v)" by auto
    then have "d \<in> set v" "re_keep d"
      unfolding set_re_sub_keep by blast+
    with False have "\<not> invalid_digit d" unfolding list_ex_iff by blast
    with \<open>re_keep d\<close> have "Bubble_parse [d] = Inr (projr (Bubble_parse [d]))"
      by (rule token_valid)
    with d show "\<exists>b. Bubble_parse tok = Inr b" by blast
  qed
  then have "comprehension Bubble_parse ?toks = Inr (map (\<lambda>x. projr (Bubble_parse x)) ?toks)"
    by (rule comprehension_all_Inr [of ?toks Bubble_parse])
  with False show ?thesis by (simp add: Response_parse_def comp_def)
qed

lemma Bubble_ord_inj: "inj (\<lambda>b. of_char (Bubble_value b) :: nat)"
  by (rule injI) (auto simp: Bubble_value_def split: Bubble.splits)

lemma sort_key_set_unique:
  fixes k :: "'a \<Rightarrow> nat"
  assumes "inj k" "distinct xs" "distinct ys" "set xs = set ys"
  shows "sort_key k xs = sort_key k ys"
proof -
  have "map k (sort_key k xs) = map k (sort_key k ys)"
  proof (rule sorted_distinct_set_unique)
    show "sorted (map k (sort_key k xs))" "sorted (map k (sort_key k ys))" by simp_all
    show "distinct (map k (sort_key k xs))" "distinct (map k (sort_key k ys))"
      using assms by (simp_all add: distinct_map inj_on_def inj_def)
    show "set (map k (sort_key k xs)) = set (map k (sort_key k ys))"
      using assms by simp
  qed
  with assms(1) show ?thesis by (simp add: inj_map_eq_map)
qed

text \<open>Whatever order \<open>list(set(xs))\<close> takes, the constructor returns the same Response.\<close>

lemma Response_init_any_order:
  "distinct ys \<Longrightarrow> set ys = set xs \<Longrightarrow> Response_init ys = Response_init (remdups xs)"
  unfolding Response_init_def
  using sort_key_set_unique [OF Bubble_ord_inj, of ys "remdups xs"] by simp

lemma Response_init_sorted:
  "sorted (map (\<lambda>b. of_char (Bubble_value b) :: nat) (bubbles (Response_init xs)))"
  by (simp add: Response_init_def)

lemma Response_init_distinct: "distinct xs \<Longrightarrow> distinct (bubbles (Response_init xs))"
  by (simp add: Response_init_def)

lemma list_ex_invalid_keep:
  "list_ex invalid_digit v = list_ex invalid_digit (re_sub_keep v)"
  unfolding list_ex_iff set_re_sub_keep using invalid_digit_keep by blast

lemma Response_parse_cong:
  assumes "set (re_sub_keep s) = set (re_sub_keep t)"
  shows "Response_parse s = Response_parse t"
proof -
  have "list_ex invalid_digit (re_sub_keep s) = list_ex invalid_digit (re_sub_keep t)"
    unfolding list_ex_iff using assms by simp
  then have ex: "list_ex invalid_digit s = list_ex invalid_digit t"
    using list_ex_invalid_keep [of s] list_ex_invalid_keep [of t] by blast
  let ?g = "\<lambda>c. projr (Bubble_parse [c])"
  have "set (map ?g (re_sub_keep s)) = set (map ?g (re_sub_keep t))"
    using assms by simp
  then have "Response_init (remdups (map ?g (re_sub_keep s))) =
      Response_init (remdups (map ?g (re_sub_keep t)))"
    by (intro Response_init_any_order) simp_all
  with ex show ?thesis by (simp add: Response_parse_char)
qed

lemma Response_parse_sorted:
  assumes "Response_parse s = Inr r"
  shows "sorted (map (\<lambda>b. of_char (Bubble_value b) :: nat) (bubbles r)) \<and> distinct (bubbles r)"
proof -
  from assms obtain xs where "r = Response_init (remdups xs)"
    by (auto simp: Response_parse_char split: if_splits)
  then show ?thesis
    using Response_init_sorted [of "remdups xs"] Response_init_distinct [of "remdups xs"]
    by simp
qed

lemma Response_parse_drop_char:
  "\<not> re_keep c \<Longrightarrow> Response_parse (u @ c # w) = Response_parse (u @ w)"
  by (rule Response_parse_cong) (simp add: re_sub_keep_def)

lemma Response_parse_duplicate:
  "c \<in> set (u @ w) \<Longrightarrow> Response_parse (u @ c # w) = Response_parse (u @ w)"
  by (rule Response_parse_cong) (auto simp: set_re_sub_keep)

lemma Response_parse_reorder:
  "mset s = mset t \<Longrightarrow> Response_parse s = Response_parse t"
proof (rule Response_parse_cong)
  assume "mset s = mset t"
  then have "set s = set t" by (rule mset_eq_setD)
  then show "set (re_sub_keep s) = set (re_sub_keep t)" by (simp add: set_re_sub_keep)
qed

lemma Response_parse_nothing_kept:
  assumes "\<not> list_ex re_keep v"
  shows "Response_parse v = Inr \<lparr>bubbles = []\<rparr>"
proof -
  from assms have k: "re_sub_keep v = []"
    by (simp add: re_sub_keep_def list_ex_iff filter_empty_conv)
  from assms have "\<not> list_ex invalid_digit v"
    unfolding list_ex_iff using invalid_digit_keep by blast
  with k show ?thesis by (simp add: Response_parse_char Response_init_def)
qed

lemma token_bubble_table:
  "list_all (\<lambda>c. Bubble_parse [c] =
      (case token_bubble c of Some b \<Rightarrow> Inr b | None \<Rightarrow> Inl ValueError))
     ''0123456789ABCDE''"
  by code_simp

lemma token_bubble_parse:
  assumes "re_keep c"
  shows "Bubble_parse [c] = (case token_bubble c of Some b \<Rightarrow> Inr b | None \<Rightarrow> Inl ValueError)"
proof -
  from assms have "c \<in> set ''0123456789ABCDE''"
    by (simp only: re_keep_iff)
  with token_bubble_table show ?thesis
    unfolding list_all_iff by blast
qed

lemma token_bubble_not_kept: "\<not> re_keep c \<Longrightarrow> token_bubble c = None"
  by (auto simp: token_bubble_def re_keep_def re_digit_def)

lemma token_bubble_Some_iff:
  "token_bubble c = Some b \<longleftrightarrow> re_keep c \<and> Bubble_parse [c] = Inr b"
proof (cases "re_keep c")
  case False
  then show ?thesis using token_bubble_not_kept [of c] by simp
next
  case True
  from token_bubble_parse [OF True] True show ?thesis
    by (cases "token_bubble c") simp_all
qed

lemma set_BUBBLES: "set BUBBLES = UNIV"
proof -
  have "b \<in> set BUBBLES" for b
    by (cases b) (simp_all add: BUBBLES_def)
  then show ?thesis by blast
qed

lemma sorted_BUBBLES: "sorted (map (\<lambda>b. of_char (Bubble_value b) :: nat) BUBBLES)"
  by (simp add: BUBBLES_def Bubble_value_def)

lemma distinct_BUBBLES: "distinct BUBBLES"
  by (simp add: BUBBLES_def)

lemma sorted_distinct_bubbles:
  assumes "sorted (map (\<lambda>b. of_char (Bubble_value b) :: nat) xs)" and "distinct xs"
  shows "xs = filter (\<lambda>b. b \<in> set xs) BUBBLES"
proof -
  let ?k = "\<lambda>b. of_char (Bubble_value b) :: nat"
  let ?ys = "filter (\<lambda>b. b \<in> set xs) BUBBLES"
  have inj: "inj ?k" by (rule Bubble_ord_inj)
  have "map ?k xs = map ?k ?ys"
  proof (rule sorted_distinct_set_unique)
    show "sorted (map ?k xs)" by (rule assms(1))
    show "sorted (map ?k ?ys)" using sorted_BUBBLES by (rule sorted_filter)
    show "distinct (map ?k xs)"
      using assms(2) inj by (simp add: distinct_map inj_on_def inj_def)
    show "distinct (map ?k ?ys)"
      using distinct_BUBBLES inj by (simp add: distinct_map inj_on_def inj_def)
    show "set (map ?k xs) = set (map ?k ?ys)"
      using set_BUBBLES by auto
  qed
  with inj show ?thesis by (simp add: inj_map_eq_map)
qed

lemma Response_parse_set:
  assumes "Response_parse s = Inr r"
  shows "set (bubbles r) = {b. list_ex (\<lambda>c. token_bubble c = Some b) s}"
proof -
  let ?g = "\<lambda>c. projr (Bubble_parse [c])"
  from assms have ok: "\<not> list_ex invalid_digit s"
    and r: "r = Response_init (remdups (map ?g (re_sub_keep s)))"
    by (simp_all add: Response_parse_char split: if_splits)
  have v: "Bubble_parse [c] = Inr (?g c)" if "c \<in> set s" "re_keep c" for c
  proof -
    from that(1) ok have "\<not> invalid_digit c" unfolding list_ex_iff by blast
    with that(2) show ?thesis by (rule token_valid)
  qed
  have "set (bubbles r) = ?g ` set (re_sub_keep s)"
    unfolding r by (simp add: Response_init_def)
  also have "\<dots> = {b. \<exists>c\<in>set s. token_bubble c = Some b}"
  proof (intro set_eqI iffI)
    fix b assume "b \<in> ?g ` set (re_sub_keep s)"
    then obtain c where c: "c \<in> set s" "re_keep c" "b = ?g c"
      unfolding set_re_sub_keep by blast
    from v [OF c(1,2)] c(2,3) have "token_bubble c = Some b"
      by (simp add: token_bubble_Some_iff)
    with c(1) show "b \<in> {b. \<exists>c\<in>set s. token_bubble c = Some b}" by blast
  next
    fix b assume "b \<in> {b. \<exists>c\<in>set s. token_bubble c = Some b}"
    then obtain c where c: "c \<in> set s" "token_bubble c = Some b" by blast
    then have k: "re_keep c" and p: "Bubble_parse [c] = Inr b"
      by (simp_all add: token_bubble_Some_iff)
    from p have "?g c = b" by simp
    moreover from c(1) k have "c \<in> set (re_sub_keep s)"
      unfolding set_re_sub_keep by simp
    ultimately show "b \<in> ?g ` set (re_sub_keep s)" by blast
  qed
  finally show ?thesis by (simp add: list_ex_iff)
qed

lemma Response_parse_bubbles:
  assumes "Response_parse s = Inr r"
  shows "bubbles r = filter (\<lambda>b. list_ex (\<lambda>c. token_bubble c = Some b) s) BUBBLES"
proof -
  from Response_parse_sorted [OF assms]
  have "bubbles r = filter (\<lambda>b. b \<in> set (bubbles r)) BUBBLES"
    using sorted_distinct_bubbles [of "bubbles r"] by blast
  then show ?thesis
    unfolding Response_parse_set [OF assms] by simp
qed

text \<open>
  Claim C7. \<open>Response.parse\<close> depends only on the set of characters of the class
  \<open>[\dA-E]\<close> in its input: it is unchanged by reordering the characters, by inserting a
  character outside the class (punctuation) and by repeating a character. A Response it
  returns lists, in the order A, B, C, D, E and each once, exactly the bubbles that some
  character of the input denotes. The four texts of the test suite all parse to the
  Response A, B, C, D, E, and \<open>12\<close>, \<open>ABC\<close> and \<open>(2,4,5)\<close> to the Responses A, B; A, B, C
  and B, D, E.
\<close>

theorem Response_parse_canonical:
  "(set (re_sub_keep s) = set (re_sub_keep t) \<longrightarrow> Response_parse s = Response_parse t) \<and>
   (mset s = mset t \<longrightarrow> Response_parse s = Response_parse t) \<and>
   (\<not> re_keep p \<longrightarrow> Response_parse (x @ p # y) = Response_parse (x @ y)) \<and>
   (d \<in> set (u @ w) \<longrightarrow> Response_parse (u @ d # w) = Response_parse (u @ w)) \<and>
   (Response_parse s = Inr r \<longrightarrow>
      sorted (map (\<lambda>b. of_char (Bubble_value b) :: nat) (bubbles r)) \<and> distinct (bubbles r)) \<and>
   (Response_parse s = Inr r \<longrightarrow>
      bubbles r = filter (\<lambda>b. list_ex (\<lambda>c. token_bubble c = Some b) s) BUBBLES) \<and>
   Response_parse ''(5,1,4,2,3)'' = Inr \<lparr>bubbles = [A, B, C, D, E]\<rparr> \<and>
   Response_parse ''(1,5,3,2,4)'' = Inr \<lparr>bubbles = [A, B, C, D, E]\<rparr> \<and>
   Response_parse ''53214'' = Inr \<lparr>bubbles = [A, B, C, D, E]\<rparr> \<and>
   Response_parse ''CABDE'' = Inr \<lparr>bubbles = [A, B, C, D, E]\<rparr> \<and>
   Response_parse ''12'' = Inr \<lparr>bubbles = [A, B]\<rparr> \<and>
   Response_parse ''ABC'' = Inr \<lparr>bubbles = [A, B, C]\<rparr> \<and>
   Response_parse ''(2,4,5)'' = Inr \<lparr>bubbles = [B, D, E]\<rparr>"
proof -
  have e1: "Response_parse ''(5,1,4,2,3)'' = Inr \<lparr>bubbles = [A, B, C, D, E]\<rparr>" by code_simp
  have e2: "Response_parse ''(1,5,3,2,4)'' = Inr \<lparr>bubbles = [A, B, C, D, E]\<rparr>" by code_simp
  have e3: "Response_parse ''53214'' = Inr \<lparr>bubbles = [A, B, C, D, E]\<rparr>" by code_simp
  have e4: "Response_parse ''CABDE'' = Inr \<lparr>bubbles = [A, B, C, D, E]\<rparr>" by code_simp
  have e5: "Response_parse ''12'' = Inr \<lparr>bubbles = [A, B]\<rparr>" by code_simp
  have e6: "Response_parse ''ABC'' = Inr \<lparr>bubbles = [A, B, C]\<rparr>" by code_simp
  have e7: "Response_parse ''(2,4,5)'' = Inr \<lparr>bubbles = [B, D, E]\<rparr>" by code_simp
  show ?thesis
    using Response_parse_cong [of s t] Response_parse_reorder [of s t]
      Response_parse_drop_char [of p x y] Response_parse_duplicate [of d u w]
      Response_parse_sorted [of s r] Response_parse_bubbles [of s r] e1 e2 e3 e4 e5 e6 e7
    by blast
qed

theorem Response_parse_canonical_witness:
  "Response_parse ''(2,1)'' = Response_parse ''(1,2)'' \<and>
   Response_parse (''1'' @ CHR '','' # ''2'') = Response_parse (''1'' @ ''2'') \<and>
   Response_parse (''1'' @ CHR ''1'' # ''2'') = Response_parse (''1'' @ ''2'') \<and>
   Response_parse ''(2,1)'' = Inr \<lparr>bubbles = [A, B]\<rparr> \<and>
   sorted (map (\<lambda>b. of_char (Bubble_value b) :: nat) (bubbles \<lparr>bubbles = [A, B]\<rparr>)) \<and>
   distinct (bubbles \<lparr>bubbles = [A, B]\<rparr>) \<and>
   bubbles \<lparr>bubbles = [A, B]\<rparr> =
     filter (\<lambda>b. list_ex (\<lambda>c. token_bubble c = Some b) ''(2,1)'') BUBBLES"
proof -
  have h0: "set (re_sub_keep ''(2,1)'') = set (re_sub_keep ''(1,2)'')" by code_simp
  have h1: "mset ''(2,1)'' = mset ''(1,2)''" by simp
  have h2: "\<not> re_keep CHR '',''" by code_simp
  have h3: "CHR ''1'' \<in> set (''1'' @ ''2'')" by simp
  have h4: "Response_parse ''(2,1)'' = Inr \<lparr>bubbles = [A, B]\<rparr>" by code_simp
  from h0 h1 h2 h3 h4 show ?thesis
    using Response_parse_canonical [where s = "''(2,1)''" and t = "''(1,2)''"
        and p = "CHR '',''" and x = "''1''" and y = "''2''" and d = "CHR ''1''"
        and u = "''1''" and w = "''2''" and r = "\<lparr>bubbles = [A, B]\<rparr>"]
    by blast
qed

text \<open>
  Claim C10. \<open>Response.parse\<close> raises exactly when its input holds a digit other than
  1 to 5, and what it raises is a \<open>ValueError\<close>. A character that is neither a digit
  nor a letter A to E is dropped without an error, so an input with no character of the
  class \<open>[\dA-E]\<close>, such as \<open>F\<close>, lowercase letters or the empty string, parses to the
  empty Response.
\<close>

theorem Response_parse_raises_iff:
  "((\<exists>e. Response_parse v = Inl e) \<longleftrightarrow> list_ex invalid_digit v) \<and>
   (\<forall>e. Response_parse v = Inl e \<longrightarrow> e = ValueError) \<and>
   (\<not> re_keep c \<longrightarrow> Response_parse (u @ c # w) = Response_parse (u @ w)) \<and>
   (\<not> list_ex re_keep v \<longrightarrow> Response_parse v = Inr \<lparr>bubbles = []\<rparr>) \<and>
   Response_parse ''F'' = Inr \<lparr>bubbles = []\<rparr> \<and>
   Response_parse ''fz, Z!'' = Inr \<lparr>bubbles = []\<rparr> \<and>
   Response_parse '''' = Inr \<lparr>bubbles = []\<rparr>"
proof -
  have a: "(\<exists>e. Response_parse v = Inl e) \<longleftrightarrow> list_ex invalid_digit v"
    by (simp add: Response_parse_char)
  have b: "\<forall>e. Response_parse v = Inl e \<longrightarrow> e = ValueError"
    by (simp add: Response_parse_char)
  have e1: "Response_parse ''F'' = Inr \<lparr>bubbles = []\<rparr>" by code_simp
  have e2: "Response_parse ''fz, Z!'' = Inr \<lparr>bubbles = []\<rparr>" by code_simp
  have e3: "Response_parse '''' = Inr \<lparr>bubbles = []\<rparr>" by code_simp
  show ?thesis
    using a b Response_parse_drop_char [of c u w] Response_parse_nothing_kept [of v] e1 e2 e3
    by blast
qed

theorem Response_parse_raises_iff_witness:
  "Response_parse ''(1,6)'' = Inl ValueError \<and>
   Response_parse (''A'' @ CHR ''x'' # ''B'') = Response_parse (''A'' @ ''B'') \<and>
   (\<not> list_ex invalid_digit ''(1,5)'' \<and> (\<forall>e. Response_parse ''(1,5)'' \<noteq> Inl e)) \<and>
   (\<not> list_ex re_keep ''xyz'' \<and> Response_parse ''xyz'' = Inr \<lparr>bubbles = []\<rparr>)"
proof -
  have h1: "list_ex invalid_digit ''(1,6)''" by code_simp
  have h2: "\<not> re_keep CHR ''x''" by code_simp
  have h3: "\<not> list_ex invalid_digit ''(1,5)''" by code_simp
  have h4: "\<not> list_ex re_keep ''xyz''" by code_simp
  from h1 h2 h3 h4 show ?thesis
    using Response_parse_raises_iff [where v = "''(1,6)''" and c = "CHR ''x''"
        and u = "''A''" and w = "''B''"]
      Response_parse_raises_iff [where v = "''(1,5)''"]
      Response_parse_raises_iff [where v = "''xyz''"]
    by blast
qed

section \<open>Grading one rubric item\<close>

text \<open>
  Claim C9. A rubric item with partial credit and an empty correct response is what
  \<open>RubricItem.parse("P")\<close> returns, and grading against it raises
  \<open>ZeroDivisionError\<close> for every response. The division is the only thing in
  \<open>RubricItem.grade\<close> that can raise, and it raises exactly when the item has partial
  credit and its correct set is empty.
\<close>

theorem partial_credit_empty_correct_raises:
  "RubricItem_parse ''P'' = Inr \<lparr>correct_response = \<lparr>bubbles = []\<rparr>, partial_credit = True\<rparr> \<and>
   (RubricItem_grade item response = Inl ZeroDivisionError \<longleftrightarrow>
      partial_credit item \<and> bubbles (correct_response item) = []) \<and>
   (\<forall>e. RubricItem_grade item response = Inl e \<longrightarrow> e = ZeroDivisionError)"
proof -
  have p: "RubricItem_parse ''P'' =
      Inr \<lparr>correct_response = \<lparr>bubbles = []\<rparr>, partial_credit = True\<rparr>"
    by code_simp
  have z: "card (bubble_set (correct_response item)) = 0 \<longleftrightarrow> bubbles (correct_response item) = []"
    by (simp add: bubble_set_def)
  have g: "RubricItem_grade item response = Inl ZeroDivisionError \<longleftrightarrow>
      partial_credit item \<and> bubbles (correct_response item) = []"
    unfolding RubricItem_grade_def Let_def using z by simp
  have e: "\<forall>e. RubricItem_grade item response = Inl e \<longrightarrow> e = ZeroDivisionError"
    unfolding RubricItem_grade_def Let_def by (simp split: if_splits)
  from p g e show ?thesis by blast
qed

theorem partial_credit_empty_correct_raises_witness:
  "RubricItem_grade \<lparr>correct_response = \<lparr>bubbles = []\<rparr>, partial_credit = True\<rparr>
     \<lparr>bubbles = [A]\<rparr> = Inl ZeroDivisionError \<and>
   (\<exists>x. RubricItem_grade \<lparr>correct_response = \<lparr>bubbles = [A]\<rparr>, partial_credit = True\<rparr>
     \<lparr>bubbles = [A]\<rparr> = Inr x)"
proof -
  have a: "RubricItem_grade \<lparr>correct_response = \<lparr>bubbles = []\<rparr>, partial_credit = True\<rparr>
     \<lparr>bubbles = [A]\<rparr> = Inl ZeroDivisionError"
    using partial_credit_empty_correct_raises
      [of "\<lparr>correct_response = \<lparr>bubbles = []\<rparr>, partial_credit = True\<rparr>" "\<lparr>bubbles = [A]\<rparr>"]
    by simp
  have b: "\<exists>x. RubricItem_grade \<lparr>correct_response = \<lparr>bubbles = [A]\<rparr>, partial_credit = True\<rparr>
     \<lparr>bubbles = [A]\<rparr> = Inr x"
    using partial_credit_empty_correct_raises
      [of "\<lparr>correct_response = \<lparr>bubbles = [A]\<rparr>, partial_credit = True\<rparr>" "\<lparr>bubbles = [A]\<rparr>"]
    by (cases "RubricItem_grade \<lparr>correct_response = \<lparr>bubbles = [A]\<rparr>, partial_credit = True\<rparr>
     \<lparr>bubbles = [A]\<rparr>") auto
  from a b show ?thesis by blast
qed






lemma RubricItem_grade_Inr:
  "\<not> (partial_credit item \<and> bubbles (correct_response item) = []) \<Longrightarrow>
     \<exists>x. RubricItem_grade item response = Inr x"
  unfolding RubricItem_grade_def Let_def by (simp add: bubble_set_def)

lemma comprehension_list_all2:
  "list_all2 (\<lambda>x y. f x = Inr y) xs ys \<Longrightarrow> comprehension f xs = Inr ys"
  by (induction xs ys rule: list_all2_induct) simp_all

lemma comprehension_length: "comprehension f xs = Inr ys \<Longrightarrow> length ys = length xs"
proof (induction xs arbitrary: ys)
  case Nil
  then show ?case by simp
next
  case (Cons x xs)
  from Cons.prems obtain y zs where "f x = Inr y" "comprehension f xs = Inr zs" "ys = y # zs"
    by (auto split: sum.splits)
  with Cons.IH [of zs] show ?case by simp
qed

lemma py_max_Max: "xs \<noteq> [] \<Longrightarrow> py_max xs = Inr (Max (set xs))"
proof -
  assume "xs \<noteq> []"
  then obtain x ys where xs: "xs = x # ys" by (cases xs) auto
  have "(\<lambda>y m. if m < y then y else m) = (max :: real \<Rightarrow> real \<Rightarrow> real)"
    by (auto simp: fun_eq_iff max_def)
  then have "py_max (x # ys) = Inr (fold max ys x)"
    unfolding py_max_def by simp
  then show ?thesis
    unfolding xs by (simp only: Max.set_eq_fold)
qed

section \<open>Grading a rubric\<close>

text \<open>
  A rubric with one item, of partial credit and with an empty correct set (the rubric
  text \<open>P\<close>), has a non-empty item sequence, and grading it raises
  \<open>ZeroDivisionError\<close> instead of returning a pair.
\<close>

theorem Rubric_grade_raises:
  "items \<lparr>items = [\<lparr>correct_response = \<lparr>bubbles = []\<rparr>, partial_credit = True\<rparr>], points = 1,
            extra_credit = False\<rparr> \<noteq> [] \<and>
   Rubric_grade \<lparr>items = [\<lparr>correct_response = \<lparr>bubbles = []\<rparr>, partial_credit = True\<rparr>], points = 1,
            extra_credit = False\<rparr> \<lparr>bubbles = [A]\<rparr> = Inl ZeroDivisionError"
  by (simp add: Rubric_grade_def RubricItem_grade_def bubble_set_def raise_or_def)

text \<open>
  Claim C5, amended. For a rubric with a non-empty item sequence in which every item of
  partial credit has a non-empty correct set, and any response, \<open>Rubric.grade\<close> returns
  \<open>points\<close> times the greatest of the items' grades as \<open>points_earned\<close>, and as
  \<open>out_of\<close> it returns \<open>points\<close> without extra credit and 0 with it, whatever the points.
\<close>

theorem Rubric_grade_best_item:
  assumes "items rubric \<noteq> []"
    and "\<forall>item\<in>set (items rubric). partial_credit item \<longrightarrow> bubbles (correct_response item) \<noteq> []"
  shows "\<exists>scores. list_all2 (\<lambda>item x. RubricItem_grade item response = Inr x) (items rubric) scores \<and>
           Rubric_grade rubric response =
             Inr (points rubric * Max (set scores), if extra_credit rubric then 0 else points rubric)"
proof -
  let ?f = "\<lambda>item. RubricItem_grade item response"
  let ?scores = "map (\<lambda>item. projr (?f item)) (items rubric)"
  have ok: "\<forall>item\<in>set (items rubric). \<exists>x. ?f item = Inr x"
  proof
    fix item assume "item \<in> set (items rubric)"
    with assms(2) have "\<not> (partial_credit item \<and> bubbles (correct_response item) = [])"
      by blast
    then show "\<exists>x. ?f item = Inr x" by (rule RubricItem_grade_Inr)
  qed
  then have a: "list_all2 (\<lambda>item x. ?f item = Inr x) (items rubric) ?scores"
    by (auto simp: list_all2_map2 list_all2_same)
  then have c: "comprehension ?f (items rubric) = Inr ?scores"
    by (rule comprehension_list_all2)
  from assms(1) have "?scores \<noteq> []" by simp
  then have m: "py_max ?scores = Inr (Max (set ?scores))" by (rule py_max_Max)
  have "Rubric_grade rubric response =
      Inr (points rubric * Max (set ?scores), if extra_credit rubric then 0 else points rubric)"
    unfolding Rubric_grade_def by (simp add: raise_or_def c m)
  with a show ?thesis by blast
qed

theorem Rubric_grade_best_item_witness:
  "items \<lparr>items = [\<lparr>correct_response = \<lparr>bubbles = [A, B]\<rparr>, partial_credit = True\<rparr>,
                     \<lparr>correct_response = \<lparr>bubbles = [A, B, C]\<rparr>, partial_credit = False\<rparr>],
            points = 2, extra_credit = True\<rparr> \<noteq> [] \<and>
   (\<exists>scores. Rubric_grade
        \<lparr>items = [\<lparr>correct_response = \<lparr>bubbles = [A, B]\<rparr>, partial_credit = True\<rparr>,
                   \<lparr>correct_response = \<lparr>bubbles = [A, B, C]\<rparr>, partial_credit = False\<rparr>],
          points = 2, extra_credit = True\<rparr> \<lparr>bubbles = [A, B, C]\<rparr> =
      Inr (2 * Max (set scores), 0))"
proof -
  let ?rubric = "\<lparr>items = [\<lparr>correct_response = \<lparr>bubbles = [A, B]\<rparr>, partial_credit = True\<rparr>,
                     \<lparr>correct_response = \<lparr>bubbles = [A, B, C]\<rparr>, partial_credit = False\<rparr>],
            points = 2, extra_credit = True\<rparr>"
  have h1: "items ?rubric \<noteq> []" by simp
  have h2: "\<forall>item\<in>set (items ?rubric). partial_credit item \<longrightarrow> bubbles (correct_response item) \<noteq> []"
    by simp
  from Rubric_grade_best_item [OF h1 h2, of "\<lparr>bubbles = [A, B, C]\<rparr>"] h1
  show ?thesis by auto
qed

section \<open>Constructing a Grader\<close>

lemma add_key_error: "add_key key st = Inl e \<Longrightarrow> e = AssertionError"
  by (simp add: add_key_def split: if_splits)

lemma add_key_keys:
  "add_key key st = Inr st' \<Longrightarrow>
     keys st' = keys st @ [key] \<and> key_form key \<notin> set (map key_form (keys st))"
  by (auto simp: add_key_def keys_def split: if_splits)

lemma Grader_init_clash:
  "\<exists>k\<in>set ks. key_form k \<in> set (map key_form (keys st)) \<Longrightarrow>
     fst (Grader_init ks st) = Some AssertionError"
proof (induction ks arbitrary: st)
  case Nil
  then show ?case by simp
next
  case (Cons a ks)
  show ?case
  proof (cases "add_key a st")
    case (Inl e)
    then show ?thesis using add_key_error [of a st e] by simp
  next
    case (Inr st')
    from add_key_keys [OF Inr] have k: "keys st' = keys st @ [a]"
      and n: "key_form a \<notin> set (map key_form (keys st))" by simp_all
    from Cons.prems n have "\<exists>k\<in>set ks. key_form k \<in> set (map key_form (keys st))" by auto
    with k have "\<exists>k\<in>set ks. key_form k \<in> set (map key_form (keys st'))" by auto
    with Cons.IH [of st'] Inr show ?thesis by simp
  qed
qed

lemma Grader_init_duplicate:
  "\<not> distinct (map key_form ks) \<Longrightarrow> fst (Grader_init ks st) = Some AssertionError"
proof (induction ks arbitrary: st)
  case Nil
  then show ?case by simp
next
  case (Cons a ks)
  show ?case
  proof (cases "add_key a st")
    case (Inl e)
    then show ?thesis using add_key_error [of a st e] by simp
  next
    case (Inr st')
    from add_key_keys [OF Inr] have k: "keys st' = keys st @ [a]" by simp
    show ?thesis
    proof (cases "distinct (map key_form ks)")
      case False
      with Cons.IH [of st'] Inr show ?thesis by simp
    next
      case True
      with Cons.prems have "key_form a \<in> set (map key_form ks)" by simp
      with k have "\<exists>k\<in>set ks. key_form k \<in> set (map key_form (keys st'))" by auto
      with Grader_init_clash [of ks st'] Inr show ?thesis by simp
    qed
  qed
qed

lemma Grader_init_distinct:
  "distinct (map key_form (keys st)) \<Longrightarrow>
     distinct (map key_form (keys (snd (Grader_init ks st))))"
proof (induction ks arbitrary: st)
  case Nil
  then show ?case by simp
next
  case (Cons a ks)
  show ?case
  proof (cases "add_key a st")
    case (Inl e)
    with Cons.prems show ?thesis by simp
  next
    case (Inr st')
    from add_key_keys [OF Inr] Cons.prems have "distinct (map key_form (keys st'))" by simp
    with Cons.IH [of st'] Inr show ?thesis by simp
  qed
qed

lemma reachable_distinct: "reachable st \<Longrightarrow> distinct (map key_form (keys st))"
proof (induction rule: reachable.induct)
  case loaded
  show ?case by (simp add: initial_def keys_def)
next
  case (constructed st ks)
  from constructed.IH show ?case by (rule Grader_init_distinct)
qed

text \<open>
  Claim C8. Constructing a Grader from a list of Keys in which two Keys have the same
  form fails with an \<open>AssertionError\<close>, whatever the class-level list held before; and
  in every state the program can reach, the keys a Grader holds have pairwise distinct
  forms.
\<close>

theorem Grader_rejects_duplicate_forms:
  "(\<not> distinct (map key_form ks) \<longrightarrow> fst (Grader_init ks st) = Some AssertionError) \<and>
   (reachable st \<longrightarrow> distinct (map key_form (keys st)))"
  using Grader_init_duplicate [of ks st] reachable_distinct [of st] by blast

theorem Grader_rejects_duplicate_forms_witness:
  "fst (Grader_init [\<lparr>key_form = A, questions = []\<rparr>, \<lparr>key_form = B, questions = []\<rparr>,
                     \<lparr>key_form = A, questions = []\<rparr>] initial) = Some AssertionError \<and>
   distinct (map key_form (keys (snd (Grader_init
     [\<lparr>key_form = A, questions = []\<rparr>, \<lparr>key_form = B, questions = []\<rparr>] initial))))"
proof -
  let ?dup = "[\<lparr>key_form = A, questions = []\<rparr>, \<lparr>key_form = B, questions = []\<rparr>,
               \<lparr>key_form = A, questions = []\<rparr>]"
  let ?ok = "[\<lparr>key_form = A, questions = []\<rparr>, \<lparr>key_form = B, questions = []\<rparr>]"
  have h1: "\<not> distinct (map key_form ?dup)" by simp
  have h2: "reachable (snd (Grader_init ?ok initial))"
    by (rule reachable.constructed [OF reachable.loaded])
  from h1 h2 show ?thesis
    using Grader_rejects_duplicate_forms [of ?dup initial]
      Grader_rejects_duplicate_forms [of ?ok "snd (Grader_init ?ok initial)"]
    by blast
qed

text \<open>
  A construction that succeeds appends its keys to whatever the class-level list held:
  the keys of the new Grader, and of every Grader made before, are the old keys followed
  by the new ones.
\<close>

lemma Grader_init_appends:
  "fst (Grader_init ks st) = None \<Longrightarrow> keys (snd (Grader_init ks st)) = keys st @ ks"
proof (induction ks arbitrary: st)
  case Nil
  then show ?case by simp
next
  case (Cons a ks)
  show ?case
  proof (cases "add_key a st")
    case (Inl e)
    with Cons.prems show ?thesis by simp
  next
    case (Inr st')
    from add_key_keys [OF Inr] have k: "keys st' = keys st @ [a]" by simp
    from Cons.prems Inr have "fst (Grader_init ks st') = None" by simp
    with Cons.IH [of st'] have "keys (snd (Grader_init ks st')) = keys st' @ ks" by simp
    with k Inr show ?thesis by simp
  qed
qed

text \<open>
  Claim C2 does not hold of the code: the key list is the one list of the class, shared
  by all instances. After \<open>Grader([key_A])\<close> the keys read through the first Grader
  are \<open>[key_A]\<close>; constructing a second Grader from the disjoint list \<open>[key_B]\<close> appends
  to the same list, so the first Grader now reads \<open>[key_A, key_B]\<close>; and a second
  \<open>Grader([key_A])\<close> fails its assertion although its own list has no duplicate.
\<close>

theorem Grader_keys_shared:
  "Grader_init [\<lparr>key_form = A, questions = []\<rparr>] initial =
     (None, \<lparr>class_keys = [\<lparr>key_form = A, questions = []\<rparr>]\<rparr>) \<and>
   keys \<lparr>class_keys = [\<lparr>key_form = A, questions = []\<rparr>]\<rparr> = [\<lparr>key_form = A, questions = []\<rparr>] \<and>
   Grader_init [\<lparr>key_form = B, questions = []\<rparr>] \<lparr>class_keys = [\<lparr>key_form = A, questions = []\<rparr>]\<rparr> =
     (None, \<lparr>class_keys = [\<lparr>key_form = A, questions = []\<rparr>, \<lparr>key_form = B, questions = []\<rparr>]\<rparr>) \<and>
   keys \<lparr>class_keys = [\<lparr>key_form = A, questions = []\<rparr>, \<lparr>key_form = B, questions = []\<rparr>]\<rparr> =
     [\<lparr>key_form = A, questions = []\<rparr>, \<lparr>key_form = B, questions = []\<rparr>] \<and>
   Grader_init [\<lparr>key_form = A, questions = []\<rparr>] \<lparr>class_keys = [\<lparr>key_form = A, questions = []\<rparr>]\<rparr> =
     (Some AssertionError, \<lparr>class_keys = [\<lparr>key_form = A, questions = []\<rparr>]\<rparr>)"
  by (simp add: add_key_def keys_def initial_def)

section \<open>Parsing rows and grading against a key\<close>

lemma Response_comprehension_error:
  assumes "comprehension Response_parse xs = Inl e"
  shows "e = ValueError"
proof -
  from comprehension_Inl_source [of Response_parse xs e, OF assms]
  obtain x where "Response_parse x = Inl e" by blast
  then show ?thesis by (simp add: Response_parse_char split: if_splits)
qed

lemma short_row_IndexError:
  "length row < 4 \<Longrightarrow>
     Scantron_parse row = Inl IndexError \<and> Key_parse float_of row = Inl IndexError"
  by (simp add: Scantron_parse_def Key_parse_def py_index_def raise_or_def)

lemma py_sum_from: "foldl (+) a xs = a + sum_list (xs :: real list)"
  by (induction xs arbitrary: a) simp_all

lemma py_sum_sum_list: "py_sum xs = sum_list xs"
  by (simp add: py_sum_def py_sum_from)

lemma Key_grade_totals:
  assumes "form scantron = key_form key"
    and "length (responses scantron) = length (questions key)"
    and "list_all2 (\<lambda>qr g. Rubric_grade (fst qr) (snd qr) = Inr g)
           (zip (questions key) (responses scantron)) scorings"
  shows "Key_grade key scantron =
           Inr (if scorings = [] then []
                else [sum_list (map fst scorings), sum_list (map snd scorings)])"
proof -
  let ?f = "\<lambda>(rubric, response). Rubric_grade rubric response"
  from assms(3) have "list_all2 (\<lambda>x y. ?f x = Inr y)
      (zip (questions key) (responses scantron)) scorings"
    by (simp add: case_prod_beta)
  then have "comprehension ?f (zip (questions key) (responses scantron)) = Inr scorings"
    by (rule comprehension_list_all2)
  with assms(1,2) show ?thesis
    by (simp add: Key_grade_def raise_or_def zip_star_def py_sum_sum_list)
qed

lemma raise_or_Inr: "raise_or (Inr x) k = k x"
  by (simp add: raise_or_def)

lemma raise_or_Inl: "raise_or (Inl e) k = Inl e"
  by (simp add: raise_or_def)

text \<open>
  A row that declares three questions and has one field after index 3: \<open>Scantron.parse\<close>
  raises nothing and returns a Scantron built from that one field.
\<close>

theorem Scantron_parse_short_row:
  "py_int ''3'' = Inr 3 \<and>
   Scantron_parse [''A'', ''X'', ''12345678'', ''3'', ''1''] =
     Inr \<lparr>student = \<lparr>name = ''X'', sid = ''12345678''\<rparr>, form = A,
          responses = [\<lparr>bubbles = [A]\<rparr>]\<rparr>"
proof -
  have a: "py_int ''3'' = Inr 3" by code_simp
  have b: "Scantron_parse [''A'', ''X'', ''12345678'', ''3'', ''1''] =
     Inr \<lparr>student = \<lparr>name = ''X'', sid = ''12345678''\<rparr>, form = A,
          responses = [\<lparr>bubbles = [A]\<rparr>]\<rparr>" by code_simp
  from a b show ?thesis by (rule conjI)
qed

lemma Rubric_parse_unfold:
  assumes "py_split v = parts" and "parts \<noteq> []"
  shows "Rubric_parse float_of v =
     (let extra = (last parts = ''E'');
          is_points_first = (length parts = 3 \<or> length parts = 2 \<and> \<not> extra)
      in raise_or (if is_points_first then float_of (hd parts) else Inr 1) (\<lambda>pts.
         raise_or (comprehension RubricItem_parse
                     (py_split_on CHR ''|'' (parts ! (if is_points_first then 1 else 0)))) (\<lambda>its.
         Inr \<lparr>items = its, points = pts, extra_credit = extra\<rparr>)))"
proof -
  define extra where "extra = (last parts = ''E'')"
  define first where "first = (length parts = 3 \<or> length parts = 2 \<and> \<not> extra)"
  have l: "py_index parts (- 1) = Inr (last parts)"
    using assms(2) by (rule py_index_last)
  have z: "py_index parts 0 = Inr (hd parts)"
    using assms(2) by (auto simp: py_index_def hd_conv_nth)
  have h: "parts ! 0 = hd parts"
    using assms(2) by (simp add: hd_conv_nth)
  have o: "py_index parts 1 = Inr (parts ! 1)" if first
  proof -
    from that have "1 < length parts" unfolding first_def by auto
    then show ?thesis by (auto simp: py_index_def)
  qed
  have R: "Rubric_parse float_of v =
      raise_or (if first then raise_or (py_index parts 0) float_of else Inr 1) (\<lambda>pts.
      raise_or (py_index parts (if first then 1 else 0)) (\<lambda>sequence.
      raise_or (comprehension RubricItem_parse (py_split_on CHR ''|'' sequence)) (\<lambda>its.
      Inr \<lparr>items = its, points = pts, extra_credit = extra\<rparr>)))"
    unfolding Rubric_parse_def assms(1) Let_def l raise_or_Inr first_def extra_def ..
  have "Rubric_parse float_of v =
      raise_or (if first then float_of (hd parts) else Inr 1) (\<lambda>pts.
      raise_or (comprehension RubricItem_parse
                  (py_split_on CHR ''|'' (parts ! (if first then 1 else 0)))) (\<lambda>its.
      Inr \<lparr>items = its, points = pts, extra_credit = extra\<rparr>))"
  proof (cases first)
    case True
    then show ?thesis unfolding R by (simp add: z o raise_or_Inr)
  next
    case False
    then show ?thesis unfolding R by (simp add: z h raise_or_Inr)
  qed
  then show ?thesis unfolding Let_def first_def extra_def .
qed

lemma Rubric_parse_no_token: "py_split v = [] \<Longrightarrow> Rubric_parse float_of v = Inl IndexError"
  by (simp add: Rubric_parse_def py_index_Nil raise_or_Inl)

text \<open>
  The token-count rule of \<open>Rubric.parse\<close>: the first token is read as the points exactly
  when there are three tokens, or two of which the last is not \<open>E\<close>; otherwise the
  points are 1. The extra-credit flag is set exactly when the last token is \<open>E\<close>.
\<close>

lemma Rubric_parse_points:
  assumes "Rubric_parse float_of v = Inr rubric"
  shows "py_split v \<noteq> [] \<and>
         extra_credit rubric = (last (py_split v) = ''E'') \<and>
         (if length (py_split v) = 3 \<or> length (py_split v) = 2 \<and> last (py_split v) \<noteq> ''E''
          then float_of (hd (py_split v)) = Inr (points rubric)
          else points rubric = 1)"
proof -
  have ne: "py_split v \<noteq> []"
    using assms Rubric_parse_no_token [of v float_of] by auto
  from assms Rubric_parse_unfold [OF refl ne, of float_of]
  show ?thesis
    using ne by (auto simp: Let_def raise_or_def split: sum.splits if_splits)
qed

lemma RubricItem_parse_error: "RubricItem_parse v = Inl e \<Longrightarrow> e = ValueError"
  by (auto simp: RubricItem_parse_def Let_def raise_or_def Response_parse_char
      split: sum.splits if_splits)

text \<open>
  \<open>Rubric.parse\<close> raises \<open>IndexError\<close> only at \<open>parts[-1]\<close>, when the text has no token,
  unless the conversion of the points raises one.
\<close>

lemma Rubric_parse_IndexError:
  assumes "Rubric_parse float_of v = Inl IndexError"
    and "\<forall>tok. float_of tok \<noteq> Inl IndexError"
  shows "py_split v = []"
proof (rule ccontr)
  assume ne: "py_split v \<noteq> []"
  define extra where "extra = (last (py_split v) = ''E'')"
  define first where "first = (length (py_split v) = 3 \<or> length (py_split v) = 2 \<and> \<not> extra)"
  define sequence where "sequence = py_split v ! (if first then 1 else 0)"
  from Rubric_parse_unfold [OF refl ne, of float_of]
  have R: "Rubric_parse float_of v =
      raise_or (if first then float_of (hd (py_split v)) else Inr 1) (\<lambda>pts.
      raise_or (comprehension RubricItem_parse (py_split_on CHR ''|'' sequence)) (\<lambda>its.
      Inr \<lparr>items = its, points = pts, extra_credit = extra\<rparr>))"
    unfolding Let_def first_def extra_def sequence_def .
  show False
  proof (cases "if first then float_of (hd (py_split v)) else Inr 1")
    case (Inl e)
    with R assms(1) have "e = IndexError" by (simp add: raise_or_Inl)
    with Inl assms(2) show False by (auto split: if_splits)
  next
    case pts: (Inr pts)
    show False
    proof (cases "comprehension RubricItem_parse (py_split_on CHR ''|'' sequence)")
      case (Inl e)
      with R pts assms(1) have e: "e = IndexError" by (simp add: raise_or_Inl raise_or_Inr)
      from comprehension_Inl_source
        [of RubricItem_parse "py_split_on CHR ''|'' sequence" e, OF Inl]
      obtain item where "RubricItem_parse item = Inl e" by blast
      then have "e = ValueError" by (rule RubricItem_parse_error)
      with e show False by simp
    next
      case (Inr its)
      with R pts assms(1) show False by (simp add: raise_or_Inr)
    qed
  qed
qed

text \<open>
  Claim C1, amended. For a row with at least four fields whose field 3 is an integer
  \<open>N\<close> greater than the number of fields after index 3, the slice \<open>row[4:4 + N]\<close> is the
  rest of the row: \<open>Scantron.parse\<close> and \<open>Key.parse\<close> do what they do on the fields that
  are there, and a Scantron or Key that is returned holds \<open>len(row) - 4\<close> responses or
  questions, fewer than \<open>N\<close>. The fields that are missing raise nothing:
  \<open>Scantron.parse\<close> raises no \<open>IndexError\<close>, and \<open>Key.parse\<close> raises one only when a
  field that is there holds no token (given that \<open>float\<close> raises none).
\<close>

theorem short_row_takes_remaining_fields:
  assumes "4 \<le> length row" and "py_int (row ! 3) = Inr n" and "int (length row) - 4 < n"
  shows "Scantron_parse row =
           raise_or (Bubble_parse (row ! 0)) (\<lambda>fm.
           raise_or (comprehension Response_parse (drop 4 row)) (\<lambda>rs.
           Inr \<lparr>student = Student_init (row ! 1) (row ! 2), form = fm, responses = rs\<rparr>)) \<and>
         Key_parse float_of row =
           raise_or (Bubble_parse (row ! 0)) (\<lambda>fm.
           raise_or (comprehension (Rubric_parse float_of) (drop 4 row)) (\<lambda>qs.
           Inr \<lparr>key_form = fm, questions = qs\<rparr>)) \<and>
         Scantron_parse row \<noteq> Inl IndexError \<and>
         ((\<forall>tok. float_of tok \<noteq> Inl IndexError) \<longrightarrow> Key_parse float_of row = Inl IndexError \<longrightarrow>
            list_ex (\<lambda>field. py_split field = []) (drop 4 row)) \<and>
         (\<forall>sc. Scantron_parse row = Inr sc \<longrightarrow>
            int (length (responses sc)) = int (length row) - 4 \<and> int (length (responses sc)) < n) \<and>
         (\<forall>k. Key_parse float_of row = Inr k \<longrightarrow>
            int (length (questions k)) = int (length row) - 4 \<and> int (length (questions k)) < n)"
proof -
  from assms(1) have i0: "py_index row 0 = Inr (row ! 0)"
    by (auto simp: py_index_def)
  from assms(1) have i1: "py_index row 1 = Inr (row ! 1)"
    by (auto simp: py_index_def)
  from assms(1) have i2: "py_index row 2 = Inr (row ! 2)"
    by (auto simp: py_index_def)
  from assms(1) have i3: "py_index row 3 = Inr (row ! 3)"
    by (auto simp: py_index_def)
  have sl: "py_slice row 4 (4 + n) = drop 4 row"
    using assms(1,3) by (rule py_slice_short)
  have S: "Scantron_parse row =
           raise_or (Bubble_parse (row ! 0)) (\<lambda>fm.
           raise_or (comprehension Response_parse (drop 4 row)) (\<lambda>rs.
           Inr \<lparr>student = Student_init (row ! 1) (row ! 2), form = fm, responses = rs\<rparr>))"
    unfolding Scantron_parse_def i0 i1 i2 i3 assms(2) raise_or_Inr sl ..
  have K: "Key_parse float_of row =
           raise_or (Bubble_parse (row ! 0)) (\<lambda>fm.
           raise_or (comprehension (Rubric_parse float_of) (drop 4 row)) (\<lambda>qs.
           Inr \<lparr>key_form = fm, questions = qs\<rparr>))"
    unfolding Key_parse_def i0 i3 assms(2) raise_or_Inr sl ..
  have len: "int (length (drop 4 row)) = int (length row) - 4"
    using assms(1) by simp
  have N: "Scantron_parse row \<noteq> Inl IndexError"
  proof (cases "Bubble_parse (row ! 0)")
    case (Inl e)
    with S have "Scantron_parse row = Inl e" by (simp add: raise_or_Inl)
    with Inl show ?thesis using Bubble_parse_not_IndexError [of "row ! 0"] by auto
  next
    case fm: (Inr fm)
    show ?thesis
    proof (cases "comprehension Response_parse (drop 4 row)")
      case (Inl e)
      with S fm have "Scantron_parse row = Inl e" by (simp add: raise_or_Inl raise_or_Inr)
      with Response_comprehension_error [OF Inl] show ?thesis by simp
    next
      case (Inr rs)
      with S fm show ?thesis by (simp add: raise_or_Inr)
    qed
  qed
  have LS: "\<forall>sc. Scantron_parse row = Inr sc \<longrightarrow>
      int (length (responses sc)) = int (length row) - 4 \<and> int (length (responses sc)) < n"
  proof (intro allI impI)
    fix sc assume "Scantron_parse row = Inr sc"
    with S obtain fm rs where "comprehension Response_parse (drop 4 row) = Inr rs"
      and "responses sc = rs"
      by (auto simp: raise_or_def split: sum.splits)
    with comprehension_length [of Response_parse "drop 4 row" rs]
    have "length (responses sc) = length (drop 4 row)" by simp
    with len assms(3) show "int (length (responses sc)) = int (length row) - 4 \<and>
        int (length (responses sc)) < n" by simp
  qed
  have LK: "\<forall>k. Key_parse float_of row = Inr k \<longrightarrow>
      int (length (questions k)) = int (length row) - 4 \<and> int (length (questions k)) < n"
  proof (intro allI impI)
    fix k assume "Key_parse float_of row = Inr k"
    with K obtain fm qs where "comprehension (Rubric_parse float_of) (drop 4 row) = Inr qs"
      and "questions k = qs"
      by (auto simp: raise_or_def split: sum.splits)
    with comprehension_length [of "Rubric_parse float_of" "drop 4 row" qs]
    have "length (questions k) = length (drop 4 row)" by simp
    with len assms(3) show "int (length (questions k)) = int (length row) - 4 \<and>
        int (length (questions k)) < n" by simp
  qed
  have KI: "(\<forall>tok. float_of tok \<noteq> Inl IndexError) \<longrightarrow> Key_parse float_of row = Inl IndexError \<longrightarrow>
      list_ex (\<lambda>field. py_split field = []) (drop 4 row)"
  proof (intro impI)
    assume fl: "\<forall>tok. float_of tok \<noteq> Inl IndexError"
      and ie: "Key_parse float_of row = Inl IndexError"
    show "list_ex (\<lambda>field. py_split field = []) (drop 4 row)"
    proof (cases "Bubble_parse (row ! 0)")
      case (Inl e)
      with K ie have "e = IndexError" by (simp add: raise_or_Inl)
      with Inl show ?thesis using Bubble_parse_not_IndexError [of "row ! 0"] by simp
    next
      case fm: (Inr fm)
      show ?thesis
      proof (cases "comprehension (Rubric_parse float_of) (drop 4 row)")
        case (Inl e)
        with K fm ie have e: "e = IndexError" by (simp add: raise_or_Inl raise_or_Inr)
        from comprehension_Inl_source [of "Rubric_parse float_of" "drop 4 row" e, OF Inl] e
        obtain field where f: "field \<in> set (drop 4 row)"
          "Rubric_parse float_of field = Inl IndexError" by blast
        from f(2) fl have "py_split field = []" by (rule Rubric_parse_IndexError)
        with f(1) show ?thesis unfolding list_ex_iff by blast
      next
        case (Inr qs)
        with K fm ie show ?thesis by (simp add: raise_or_Inr)
      qed
    qed
  qed
  from S K N KI LS LK show ?thesis by blast
qed


theorem short_row_takes_remaining_fields_witness:
  "4 \<le> length [''A'', ''X'', ''12345678'', ''3'', ''1''] \<and>
   py_int ([''A'', ''X'', ''12345678'', ''3'', ''1''] ! 3) = Inr 3 \<and>
   int (length [''A'', ''X'', ''12345678'', ''3'', ''1'']) - 4 < 3 \<and>
   Scantron_parse [''A'', ''X'', ''12345678'', ''3'', ''1''] \<noteq> Inl IndexError \<and>
   Scantron_parse [''A'', ''X'', ''12345678'', ''3'', ''1''] =
     Inr \<lparr>student = \<lparr>name = ''X'', sid = ''12345678''\<rparr>, form = A,
          responses = [\<lparr>bubbles = [A]\<rparr>]\<rparr> \<and>
   int (length (responses \<lparr>student = \<lparr>name = ''X'', sid = ''12345678''\<rparr>, form = A,
          responses = [\<lparr>bubbles = [A]\<rparr>]\<rparr>)) < 3 \<and>
   4 \<le> length [''A'', ''KEY'', [], ''3'', []] \<and>
   py_int ([''A'', ''KEY'', [], ''3'', []] ! 3) = Inr 3 \<and>
   int (length [''A'', ''KEY'', [], ''3'', []]) - 4 < 3 \<and>
   (\<forall>tok. (\<lambda>s. Inl ValueError :: error + real) tok \<noteq> Inl IndexError) \<and>
   Key_parse (\<lambda>s. Inl ValueError) [''A'', ''KEY'', [], ''3'', []] = Inl IndexError \<and>
   list_ex (\<lambda>field. py_split field = []) (drop 4 [''A'', ''KEY'', [], ''3'', []])"
proof -
  let ?row = "[''A'', ''X'', ''12345678'', ''3'', ''1'']"
  let ?key = "[''A'', ''KEY'', [], ''3'', []]"
  let ?fl = "\<lambda>s. Inl ValueError :: error + real"
  have i3: "py_int ''3'' = Inr 3" by code_simp
  have h1: "4 \<le> length ?row" by simp
  from i3 have h2: "py_int (?row ! 3) = Inr 3" by simp
  have h3: "int (length ?row) - 4 < 3" by simp
  have p: "Scantron_parse ?row =
     Inr \<lparr>student = \<lparr>name = ''X'', sid = ''12345678''\<rparr>, form = A,
          responses = [\<lparr>bubbles = [A]\<rparr>]\<rparr>" by code_simp
  have k1: "4 \<le> length ?key" by simp
  from i3 have k2: "py_int (?key ! 3) = Inr 3" by simp
  have k3: "int (length ?key) - 4 < 3" by simp
  have k4: "\<forall>tok. ?fl tok \<noteq> Inl IndexError" by simp
  have k5: "Key_parse ?fl ?key = Inl IndexError" by code_simp
  from short_row_takes_remaining_fields [OF h1 h2 h3, of ?fl]
    short_row_takes_remaining_fields [OF k1 k2 k3, of ?fl] h1 h2 h3 p k1 k2 k3 k4 k5
  show ?thesis by blast
qed

text \<open>
  Claim C3 does not hold of the code. By the grammar of the docstring the rubric text
  \<open>E\<close> is the single item E with no points token and no extra-credit marker, as \<open>A\<close> is
  the single item A; \<open>Rubric.parse\<close> takes the lone token for the marker as well and
  returns the item E with extra credit.
\<close>

theorem Rubric_parse_lone_E:
  "Rubric_parse float_of ''E'' =
     Inr \<lparr>items = [\<lparr>correct_response = \<lparr>bubbles = [E]\<rparr>, partial_credit = False\<rparr>],
          points = 1, extra_credit = True\<rparr> \<and>
   Rubric_parse float_of ''A'' =
     Inr \<lparr>items = [\<lparr>correct_response = \<lparr>bubbles = [A]\<rparr>, partial_credit = False\<rparr>],
          points = 1, extra_credit = False\<rparr>"
proof -
  have a: "Rubric_parse float_of ''E'' =
     Inr \<lparr>items = [\<lparr>correct_response = \<lparr>bubbles = [E]\<rparr>, partial_credit = False\<rparr>],
          points = 1, extra_credit = True\<rparr>" by code_simp
  have b: "Rubric_parse float_of ''A'' =
     Inr \<lparr>items = [\<lparr>correct_response = \<lparr>bubbles = [A]\<rparr>, partial_credit = False\<rparr>],
          points = 1, extra_credit = False\<rparr>" by code_simp
  from a b show ?thesis by (rule conjI)
qed

text \<open>
  Claim C6 does not hold of the code when the question sequence is empty. The key row
  \<open>A,KEY,,0\<close> and the scantron row \<open>A,X,12345678,0\<close> parse to a Key and a Scantron of the
  same form with no question and no response; \<open>Key.grade\<close> returns the empty tuple for
  them, not the pair \<open>(0, 0)\<close>, and \<open>Grader.grade\<close> then fails to unpack it.
\<close>

theorem Key_grade_no_questions:
  "Key_parse float_of [''A'', ''KEY'', '''', ''0''] = Inr \<lparr>key_form = A, questions = []\<rparr> \<and>
   Scantron_parse [''A'', ''X'', ''12345678'', ''0''] =
     Inr \<lparr>student = \<lparr>name = ''X'', sid = ''12345678''\<rparr>, form = A, responses = []\<rparr> \<and>
   Key_grade \<lparr>key_form = A, questions = []\<rparr>
     \<lparr>student = \<lparr>name = ''X'', sid = ''12345678''\<rparr>, form = A, responses = []\<rparr> = Inr [] \<and>
   Grader_grade \<lparr>class_keys = [\<lparr>key_form = A, questions = []\<rparr>]\<rparr>
     \<lparr>student = \<lparr>name = ''X'', sid = ''12345678''\<rparr>, form = A, responses = []\<rparr> =
     Inl ValueError"
proof -
  have a: "Key_parse float_of [''A'', ''KEY'', '''', ''0''] = Inr \<lparr>key_form = A, questions = []\<rparr>"
    by code_simp
  have b: "Scantron_parse [''A'', ''X'', ''12345678'', ''0''] =
     Inr \<lparr>student = \<lparr>name = ''X'', sid = ''12345678''\<rparr>, form = A, responses = []\<rparr>"
    by code_simp
  have c: "Key_grade \<lparr>key_form = A, questions = []\<rparr>
     \<lparr>student = \<lparr>name = ''X'', sid = ''12345678''\<rparr>, form = A, responses = []\<rparr> = Inr []"
    by (simp add: Key_grade_def raise_or_def zip_star_def)
  have d: "Grader_grade \<lparr>class_keys = [\<lparr>key_form = A, questions = []\<rparr>]\<rparr>
     \<lparr>student = \<lparr>name = ''X'', sid = ''12345678''\<rparr>, form = A, responses = []\<rparr> =
     Inl ValueError"
    by (simp add: Grader_grade_def Grader_find_key_def keys_def Key_grade_def raise_or_def
        zip_star_def)
  from a b c d show ?thesis by blast
qed

end
